theory Spec2Isabelle
  imports Main "HOL-Library.AList"
begin

section \<open>Values, exceptions and observable effects\<close>

text \<open>
  The program is one Python class, \<open>ZKTecoDevice\<close> in \<open>src/main.py\<close>, driven by a
  supervisor script. The driver (\<open>zk\<close>), the HTTP library (\<open>requests\<close>) and the file
  system are outside the program: their answers are arguments of the model, and what the
  program does to them is written to a trace.
\<close>

datatype exn =
    RequestException
  | JSONDecodeError
  | OSError
  | TypeError
  | AttributeError
  | ValueError
  | DriverError

text \<open>
  A timestamp attribute is either a \<open>datetime\<close> object (what \<open>log.timestamp.strftime\<close>
  at line 116 needs) or a \<open>str\<close> (what a JSON document can hold). The string carried by
  \<open>Datetime\<close> is the rendering of the object under \<open>"%Y-%m-%d %H:%M:%S"\<close>.
\<close>

datatype pytime = Datetime string | Text string

text \<open>The attributes of an \<open>Attendance\<close> object that the program reads.\<close>

record attendance =
  user_id :: string
  timestamp :: pytime
  punch_status :: int

text \<open>The JSON image of \<open>log.__dict__\<close>, and one entry of the persisted queue:
  \<open>{"log_time": log_time, "log": log.__dict__}\<close>.\<close>

record stored_log =
  log_user_id :: string
  log_timestamp :: string
  log_status :: int

record failed_record =
  log_time :: string
  log :: stored_log

text \<open>The body of the POST request built at lines 113-118.\<close>

record payload =
  data_device_id :: int
  data_user_id :: string
  data_timestamp :: string
  data_status :: int

datatype effect =
    LogInfo string
  | LogWarning string
  | LogError string
  | Sleep nat
  | HttpPost payload
  | DriverConnect string
  | DriverDisconnect
  | LiveCapture

text \<open>
  \<open>failed_logs.json\<close>: absent, present but not openable, present but not a JSON document,
  or a JSON object from device IP to the list of its pending records. A Python \<open>dict\<close>
  keeps insertion order, so the object is an association list.
\<close>

type_synonym store = "(string \<times> failed_record list) list"

datatype file_state = Missing | Unreadable | Malformed | Snapshot store

text \<open>
  The world outside one device object: the shared queue file, the trace of effects (oldest
  first) and, as a history variable, the events handed to \<open>send_log_to_api\<close> so far.
\<close>

record world =
  failed_logs_file :: file_state
  trace :: "effect list"
  sent :: "attendance list"

text \<open>The handle returned by \<open>self.zk.connect()\<close>.\<close>

datatype handle = Handle nat

record device =
  id_dev :: int
  ip :: string
  name :: string
  status :: string
  password :: string
  conn :: "handle option"
  device_logs :: "(string \<times> attendance) list"

text \<open>
  What one call of \<open>send_log_to_api\<close> does: its result (\<open>Inl\<close> an exception that leaves
  the method) and the effects it had.
\<close>

type_synonym send_result = "(exn + bool) \<times> effect list"

text \<open>
  \<open>process_failed_logs\<close> and \<open>get_live_logs\<close> call the method through \<open>self\<close>, once per
  record. The model takes the delivery as an argument; its answer may depend on everything
  that happened before the call (the world at the moment of the call), so that two equal
  records need not get the same answer. The method of the class facing a network \<open>net\<close> is
  the argument \<open>\<lambda>w. send_log_to_api (net w) self\<close>.
\<close>

type_synonym deliver_fn = "world \<Rightarrow> attendance \<Rightarrow> send_result"

definition log_effects :: "effect list \<Rightarrow> world \<Rightarrow> world" where
  "log_effects es w = w\<lparr>trace := trace w @ es\<rparr>"

section \<open>The delivery client: \<open>send_log_to_api\<close>\<close>

text \<open>The answer of the network to one \<open>requests.post\<close>: a response with its status code
  and text, or a \<open>RequestException\<close>.\<close>

datatype http_result = Response int string | TransportError

text \<open>\<open>log.timestamp.strftime(...)\<close>: a \<open>str\<close> has no such method.\<close>

definition strftime :: "pytime \<Rightarrow> exn + string" where
  "strftime t = (case t of Datetime s \<Rightarrow> Inr s | Text s \<Rightarrow> Inl AttributeError)"

definition send_log_to_api ::
    "(payload \<Rightarrow> http_result) \<Rightarrow> device \<Rightarrow> attendance \<Rightarrow> send_result" where
  "send_log_to_api post self lg =
     (case strftime (timestamp lg) of
        Inl e \<Rightarrow> (Inl e, [])
      | Inr ts \<Rightarrow>
          (let data = \<lparr>data_device_id = id_dev self, data_user_id = user_id lg,
                       data_timestamp = ts, data_status = punch_status lg\<rparr>
           in case post data of
                Response status_code body \<Rightarrow>
                  (if status_code = 200
                   then (Inr True, [HttpPost data, LogInfo ''Successfully sent log to API''])
                   else (Inr False, [HttpPost data, LogError ''Failed to send log to API'']))
              | TransportError \<Rightarrow>
                  (Inr False, [HttpPost data, LogError ''Error sending log to API''])))"

section \<open>The failed-event store\<close>

text \<open>\<open>json.load\<close> on the queue file, after \<open>open(..., 'r')\<close>.\<close>

definition json_load :: "file_state \<Rightarrow> exn + store" where
  "json_load f =
     (case f of
        Missing \<Rightarrow> Inl OSError
      | Unreadable \<Rightarrow> Inl OSError
      | Malformed \<Rightarrow> Inl JSONDecodeError
      | Snapshot s \<Rightarrow> Inr s)"

text \<open>
  \<open>json.dump\<close> of \<open>log.__dict__\<close>: the encoder accepts \<open>str\<close>, numbers, \<open>None\<close>, lists and
  dicts, and raises \<open>TypeError\<close> on a \<open>datetime\<close>. \<open>Attendance(**d)\<close> stores the
  attributes it is given.
\<close>

definition dict_to_json :: "attendance \<Rightarrow> exn + stored_log" where
  "dict_to_json lg =
     (case timestamp lg of
        Datetime s \<Rightarrow> Inl TypeError
      | Text s \<Rightarrow> Inr \<lparr>log_user_id = user_id lg, log_timestamp = s,
                       log_status = punch_status lg\<rparr>)"

definition Attendance :: "stored_log \<Rightarrow> attendance" where
  "Attendance d = \<lparr>user_id = log_user_id d, timestamp = Text (log_timestamp d),
                   punch_status = log_status d\<rparr>"

definition pending :: "store \<Rightarrow> string \<Rightarrow> failed_record list" where
  "pending s k = (case map_of s k of None \<Rightarrow> [] | Some ls \<Rightarrow> ls)"

text \<open>
  The \<open>try\<close> block of \<open>store_failed_log\<close> (lines 135-142). The file is read only if it
  exists; \<open>setdefault(self.ip, []).append(...)\<close> keeps the position of an existing key and
  puts a new key last; \<open>open(..., 'w')\<close> empties the file before \<open>json.dump\<close> runs, so an
  encoder error leaves a file that is not a JSON document.
\<close>

definition store_failed_log_try ::
    "device \<Rightarrow> string \<Rightarrow> attendance \<Rightarrow> world \<Rightarrow> (exn + unit) \<times> world" where
  "store_failed_log_try self lt lg w =
     (case (if failed_logs_file w = Missing then Inr [] else json_load (failed_logs_file w)) of
        Inl e \<Rightarrow> (Inl e, w)
      | Inr failed_logs \<Rightarrow>
          (case dict_to_json lg of
             Inl e \<Rightarrow> (Inl e, w\<lparr>failed_logs_file := Malformed\<rparr>)
           | Inr d \<Rightarrow>
               (Inr (),
                w\<lparr>failed_logs_file := Snapshot
                     (AList.update (ip self)
                        (pending failed_logs (ip self) @ [\<lparr>log_time = lt, log = d\<rparr>])
                        failed_logs)\<rparr>)))"

text \<open>\<open>store_failed_log\<close>: every exception of the block is logged and swallowed.\<close>

definition store_failed_log ::
    "device \<Rightarrow> string \<Rightarrow> attendance \<Rightarrow> world \<Rightarrow> (exn + unit) \<times> world" where
  "store_failed_log self lt lg w =
     (case store_failed_log_try self lt lg w of
        (Inl e, w') \<Rightarrow> (Inr (), log_effects [LogError ''Failed to store log''] w')
      | (Inr u, w') \<Rightarrow> (Inr (), w'))"

text \<open>
  The first loop of the sweep (lines 164-167): every pending record is rebuilt with
  \<open>Attendance(**log["log"])\<close> and handed to \<open>send_log_to_api\<close>; the records whose call
  returned true are collected in order. An exception of the call ends the loop.
\<close>

fun retry_logs ::
    "deliver_fn \<Rightarrow> failed_record list \<Rightarrow> world \<Rightarrow> (exn + failed_record list) \<times> world" where
  "retry_logs send [] w = (Inr [], w)"
| "retry_logs send (l # ls) w =
     (let a = Attendance (log l);
          w1 = w\<lparr>sent := sent w @ [a]\<rparr>
      in case send w a of
           (Inl e, es) \<Rightarrow> (Inl e, log_effects es w1)
         | (Inr ok, es) \<Rightarrow>
             (case retry_logs send ls (log_effects es w1) of
                (Inl e, w2) \<Rightarrow> (Inl e, w2)
              | (Inr success_logs, w2) \<Rightarrow>
                  (Inr (if ok then l # success_logs else success_logs), w2)))"

text \<open>The second loop (lines 169-170): \<open>list.remove\<close> deletes the first equal element
  and raises \<open>ValueError\<close> when there is none.\<close>

fun remove_each :: "'a list \<Rightarrow> 'a list \<Rightarrow> exn + 'a list" where
  "remove_each [] logs = Inr logs"
| "remove_each (x # xs) logs =
     (if x \<in> set logs then remove_each xs (remove1 x logs) else Inl ValueError)"

text \<open>The \<open>try\<close> block of \<open>process_failed_logs\<close> (lines 149-178).\<close>

definition process_failed_logs_try ::
    "deliver_fn \<Rightarrow> device \<Rightarrow> world \<Rightarrow> (exn + unit) \<times> world" where
  "process_failed_logs_try send self w =
     (case failed_logs_file w of
        Missing \<Rightarrow> (Inr (), w)
      | Unreadable \<Rightarrow> (Inl OSError, w)
      | Malformed \<Rightarrow>
          (Inr (), log_effects [LogError ''Failed to decode JSON, skipping processing''] w)
      | Snapshot failed_logs \<Rightarrow>
          (case map_of failed_logs (ip self) of
             None \<Rightarrow> (Inr (), w)
           | Some logs \<Rightarrow>
               (case retry_logs send logs w of
                  (Inl e, w1) \<Rightarrow> (Inl e, w1)
                | (Inr success_logs, w1) \<Rightarrow>
                    (case remove_each success_logs logs of
                       Inl e \<Rightarrow> (Inl e, w1)
                     | Inr logs' \<Rightarrow>
                         (Inr (),
                          w1\<lparr>failed_logs_file := Snapshot
                                (if length logs' = 0
                                 then AList.delete (ip self) failed_logs
                                 else AList.update (ip self) logs' failed_logs)\<rparr>)))))"

definition process_failed_logs ::
    "deliver_fn \<Rightarrow> device \<Rightarrow> world \<Rightarrow> (exn + unit) \<times> world" where
  "process_failed_logs send self w =
     (case process_failed_logs_try send self w of
        (Inl e, w') \<Rightarrow> (Inr (), log_effects [LogError ''Failed log processing error''] w')
      | (Inr u, w') \<Rightarrow> (Inr (), w'))"

section \<open>The device session\<close>

text \<open>The record of \<open>devices.json\<close> from which \<open>__init__\<close> builds the object
  (lines 42-52).\<close>

record device_data =
  data_id :: int
  data_ip :: string
  data_name :: string
  data_status_field :: string
  data_password :: string

definition init_device :: "device_data \<Rightarrow> device" where
  "init_device device_data =
     \<lparr>id_dev = data_id device_data, ip = data_ip device_data, name = data_name device_data,
      status = data_status_field device_data, password = data_password device_data,
      conn = None, device_logs = []\<rparr>"

text \<open>
  \<open>connect\<close> (lines 54-65). The argument is what \<open>ZK(...).connect()\<close> does: it returns a
  handle or raises. Every exception is caught inside the method.
\<close>

definition connect :: "exn + handle \<Rightarrow> device \<Rightarrow> world \<Rightarrow> bool \<times> device \<times> world" where
  "connect outcome self w =
     (case outcome of
        Inr h \<Rightarrow>
          (True, self\<lparr>conn := Some h, status := ''Connected''\<rparr>,
           log_effects [DriverConnect (ip self), LogInfo ''Connected to''] w)
      | Inl e \<Rightarrow>
          (False, self\<lparr>status := ''Connection Failed''\<rparr>,
           log_effects [DriverConnect (ip self), LogError ''Connection error''] w))"

text \<open>
  \<open>disconnect\<close> (lines 182-187). \<open>if self.conn\<close> tests the attribute, which is \<open>None\<close>
  until a connect succeeds and is never assigned again by this method: an object is
  true in Python 3 unless its class says otherwise. The argument is what the driver's
  \<open>disconnect()\<close> does with the handle: it returns, or raises, and nothing catches that here.
\<close>

definition disconnect ::
    "(handle \<Rightarrow> exn option) \<Rightarrow> device \<Rightarrow> world \<Rightarrow> (exn + unit) \<times> device \<times> world" where
  "disconnect close self w =
     (case conn self of
        None \<Rightarrow> (Inr (), self, w)
      | Some h \<Rightarrow>
          (case close h of
             Some e \<Rightarrow> (Inl e, self, log_effects [DriverDisconnect] w)
           | None \<Rightarrow>
               (Inr (), self\<lparr>status := ''Disconnected''\<rparr>,
                log_effects [DriverDisconnect, LogInfo ''Disconnected from''] w)))"

subsection \<open>The capture loop\<close>

text \<open>What the driver's generator yields: \<open>None\<close>, an \<open>Attendance\<close> object, or an object
  of another type.\<close>

datatype raw_log = NoneLog | AttendanceLog attendance | UnknownLog string

text \<open>
  What \<open>self.conn.live_capture(new_timeout=10)\<close> does in one pass of the loop: it raises,
  returns \<open>None\<close>, or returns an iterable. The iterable yields its items, each paired here
  with the reading of \<open>datetime.now()\<close> at the moment it is handled, and then ends or
  raises.
\<close>

datatype capture = CaptureRaises exn | CaptureNone | Yields "(string \<times> raw_log) list" "exn option"

text \<open>What the outside does during one pass of \<open>while True\<close>.\<close>

record round =
  connect_outcome :: "exn + handle"
  capture_outcome :: capture
  send_outcome :: deliver_fn

text \<open>The body of the \<open>for\<close> loop for one item (lines 84-97). The generator expression
  drops \<open>None\<close> before the body sees it.\<close>

definition handle_log ::
    "deliver_fn \<Rightarrow> string \<Rightarrow> raw_log \<Rightarrow> device \<times> world \<Rightarrow> (exn + unit) \<times> device \<times> world" where
  "handle_log send now lg sw =
     (case sw of (self, w) \<Rightarrow>
       (case lg of
          NoneLog \<Rightarrow> (Inr (), self, w)
        | UnknownLog x \<Rightarrow> (Inr (), self, log_effects [LogWarning ''Unknown log type''] w)
        | AttendanceLog a \<Rightarrow>
            (let self1 = self\<lparr>device_logs := AList.update now a (device_logs self)\<rparr>;
                 w1 = w\<lparr>sent := sent w @ [a]\<rparr>
             in case send w a of
                  (Inl e, es) \<Rightarrow> (Inl e, self1, log_effects es w1)
                | (Inr ok, es) \<Rightarrow>
                    (if ok then (Inr (), self1, log_effects es w1)
                     else (Inr (), self1,
                           snd (store_failed_log self1 now a (log_effects es w1)))))))"

text \<open>The \<open>for\<close> loop; the flag is \<open>logs_captured\<close>.\<close>

fun capture_logs ::
    "deliver_fn \<Rightarrow> (string \<times> raw_log) list \<Rightarrow> bool \<Rightarrow> device \<times> world
       \<Rightarrow> (exn + bool) \<times> device \<times> world" where
  "capture_logs send [] logs_captured sw = (Inr logs_captured, sw)"
| "capture_logs send ((now, lg) # rest) logs_captured sw =
     (case handle_log send now lg sw of
        (Inl e, sw') \<Rightarrow> (Inl e, sw')
      | (Inr u, sw') \<Rightarrow> capture_logs send rest (logs_captured \<or> lg \<noteq> NoneLog) sw')"

text \<open>The capture and the handling of what it returns (lines 75-102), on a session that
  passed the guard of line 71. On \<open>None\<close> the attribute access \<open>self.conn.live_capture\<close>
  raises.\<close>

definition capture_cycle :: "round \<Rightarrow> device \<times> world \<Rightarrow> (exn + unit) \<times> device \<times> world" where
  "capture_cycle r sw =
     (case sw of (self1, w1) \<Rightarrow>
       (case conn self1 of
          None \<Rightarrow> (Inl AttributeError, self1, w1)
        | Some h \<Rightarrow>
            (let w2 = log_effects [LiveCapture] w1 in
             case capture_outcome r of
               CaptureRaises e \<Rightarrow> (Inl e, self1, w2)
             | CaptureNone \<Rightarrow> (Inr (), self1, log_effects [Sleep 1] w2)
             | Yields logs ending \<Rightarrow>
                 (case capture_logs (send_outcome r) logs False (self1, w2) of
                    (Inl e, sw3) \<Rightarrow> (Inl e, sw3)
                  | (Inr logs_captured, self3, w3) \<Rightarrow>
                      (case ending of
                         Some e \<Rightarrow> (Inl e, self3, w3)
                       | None \<Rightarrow>
                           (Inr (), self3,
                            log_effects
                              ((if \<not> logs_captured then [Sleep 1] else []) @ [Sleep 1])
                              w3))))))"

text \<open>The \<open>try\<close> block of one pass (lines 71-102): \<open>connect\<close> is called only when
  \<open>self.conn\<close> is \<open>None\<close>, and a failed connect sleeps 10 seconds and ends the pass.\<close>

definition get_live_logs_try :: "round \<Rightarrow> device \<times> world \<Rightarrow> (exn + unit) \<times> device \<times> world" where
  "get_live_logs_try r sw =
     (case sw of (self, w) \<Rightarrow>
       (case (if conn self = None then connect (connect_outcome r) self w else (True, self, w)) of
          (connected, self1, w1) \<Rightarrow>
            if \<not> connected then (Inr (), self1, log_effects [Sleep 10] w1)
            else capture_cycle r (self1, w1)))"

text \<open>One pass with its handler (lines 103-105). The first component is the exception
  the handler caught, if any.\<close>

definition get_live_logs_pass :: "round \<Rightarrow> device \<times> world \<Rightarrow> exn option \<times> device \<times> world" where
  "get_live_logs_pass r sw =
     (case get_live_logs_try r sw of
        (Inl e, self', w') \<Rightarrow>
          (Some e, self', log_effects [LogError ''Live log error'', Sleep 10] w')
      | (Inr u, self', w') \<Rightarrow> (None, self', w'))"

text \<open>\<open>get_live_logs\<close> never returns; this is the state after the passes whose rounds are
  listed.\<close>

fun get_live_logs :: "round list \<Rightarrow> device \<times> world \<Rightarrow> device \<times> world" where
  "get_live_logs [] sw = sw"
| "get_live_logs (r # rs) sw = get_live_logs rs (snd (get_live_logs_pass r sw))"

section \<open>Vocabulary of the properties\<close>

text \<open>The pending list the queue file holds for a device; empty when the file holds no
  snapshot or the snapshot has no such key.\<close>

definition pending_of :: "file_state \<Rightarrow> string \<Rightarrow> failed_record list" where
  "pending_of f k = (case f of Snapshot s \<Rightarrow> pending s k | _ \<Rightarrow> [])"

text \<open>The entry the queue file holds for a device: its key and its list, if any.\<close>

definition entry_of :: "file_state \<Rightarrow> string \<Rightarrow> failed_record list option" where
  "entry_of f k = (case f of Snapshot s \<Rightarrow> map_of s k | _ \<Rightarrow> None)"

text \<open>The snapshot \<open>store_failed_log\<close> starts from: the empty dict when there is no file.\<close>

definition readable_store :: "file_state \<Rightarrow> store option" where
  "readable_store f = (case f of Missing \<Rightarrow> Some [] | Snapshot s \<Rightarrow> Some s | _ \<Rightarrow> None)"

text \<open>A delivery whose answer depends on the record only returns for a pending record,
  and returns true for it.\<close>

definition returns :: "(attendance \<Rightarrow> send_result) \<Rightarrow> failed_record \<Rightarrow> bool" where
  "returns f l = (fst (f (Attendance (log l))) = Inr True \<or>
                  fst (f (Attendance (log l))) = Inr False)"

definition succeeds :: "(attendance \<Rightarrow> send_result) \<Rightarrow> failed_record \<Rightarrow> bool" where
  "succeeds f l = (fst (f (Attendance (log l))) = Inr True)"

text \<open>No key of the snapshot holds an empty list. Both writers keep this: line 140 appends
  to the list it stores, and lines 172-175 delete a key whose list became empty.\<close>

definition no_empty_list :: "store \<Rightarrow> bool" where
  "no_empty_list s = ([] \<notin> snd ` set s)"

text \<open>The queue file holds no snapshot, or one without an empty list.\<close>

definition well_formed_file :: "file_state \<Rightarrow> bool" where
  "well_formed_file f = (case f of Snapshot s \<Rightarrow> no_empty_list s | _ \<Rightarrow> True)"

text \<open>The \<open>Attendance\<close> items of a batch, in the order the driver yields them.\<close>

definition attendance_logs :: "(string \<times> raw_log) list \<Rightarrow> attendance list" where
  "attendance_logs logs =
     concat (map (\<lambda>(now, lg). case lg of AttendanceLog a \<Rightarrow> [a] | _ \<Rightarrow> []) logs)"

text \<open>The items the driver yields in a round; none when the capture raises or returns
  \<open>None\<close>.\<close>

definition batch_of :: "round \<Rightarrow> (string \<times> raw_log) list" where
  "batch_of r = (case capture_outcome r of Yields logs ending \<Rightarrow> logs | _ \<Rightarrow> [])"

text \<open>The records a batch can add to the queue: one per \<open>Attendance\<close> item, stamped with
  the time the item was handled.\<close>

definition records_of :: "(string \<times> raw_log) list \<Rightarrow> failed_record set" where
  "records_of logs =
     {r. \<exists>now a d. (now, AttendanceLog a) \<in> set logs \<and> dict_to_json a = Inr d \<and>
                    r = \<lparr>log_time = now, log = d\<rparr>}"

definition is_post :: "effect \<Rightarrow> bool" where
  "is_post e = (case e of HttpPost d \<Rightarrow> True | _ \<Rightarrow> False)"

subsection \<open>Concrete inputs\<close>

definition door :: device where
  "door = \<lparr>id_dev = 1, ip = ''10.0.0.5'', name = ''door'', status = ''Disconnected'',
           password = ''0'', conn = None, device_logs = []\<rparr>"

definition gate :: device where
  "gate = \<lparr>id_dev = 2, ip = ''10.0.0.6'', name = ''gate'', status = ''Disconnected'',
           password = ''0'', conn = None, device_logs = []\<rparr>"

definition punch :: attendance where
  "punch = \<lparr>user_id = ''7'', timestamp = Datetime ''2024-01-01 09:00:00'', punch_status = 1\<rparr>"

definition reloaded_punch :: attendance where
  "reloaded_punch =
     \<lparr>user_id = ''7'', timestamp = Text ''2024-01-01 09:00:00'', punch_status = 1\<rparr>"

definition rec_of :: "string \<Rightarrow> failed_record" where
  "rec_of u =
     \<lparr>log_time = ''2024-01-01 09:00:05'',
      log = \<lparr>log_user_id = u, log_timestamp = ''2024-01-01 09:00:00'', log_status = 1\<rparr>\<rparr>"

definition world_with :: "file_state \<Rightarrow> world" where
  "world_with f = \<lparr>failed_logs_file = f, trace = [], sent = []\<rparr>"

text \<open>A delivery that accepts everything, one that refuses everything, and one that
  refuses its first two calls and accepts from the third on.\<close>

definition accept_all :: deliver_fn where
  "accept_all w a = (Inr True, [])"

definition refuse_all :: deliver_fn where
  "refuse_all w a = (Inr False, [])"

definition accept_from_third_call :: deliver_fn where
  "accept_from_third_call w a = (Inr (2 \<le> length (sent w)), [])"

text \<open>An API that answers 200 to the requests of one user and 500 to all others.\<close>

definition accepting_user :: "string \<Rightarrow> payload \<Rightarrow> http_result" where
  "accepting_user u d = (if data_user_id d = u then Response 200 [] else Response 500 [])"

text \<open>The door device once a connect has succeeded, a driver whose \<open>disconnect()\<close>
  always returns, and a round of the capture loop with a given capture outcome.\<close>

definition connected_door :: device where
  "connected_door = door\<lparr>conn := Some (Handle 0), status := ''Connected''\<rparr>"

definition closes :: "handle \<Rightarrow> exn option" where
  "closes h = None"

definition round_with :: "capture \<Rightarrow> round" where
  "round_with c = \<lparr>connect_outcome = Inr (Handle 1), capture_outcome = c,
                    send_outcome = refuse_all\<rparr>"

text \<open>An API that answers every request with the given status code.\<close>

definition answering :: "int \<Rightarrow> payload \<Rightarrow> http_result" where
  "answering code d = Response code []"

section \<open>Properties of the failed-event store\<close>

subsection \<open>The two loops of the sweep\<close>

text \<open>Removing, one by one, the elements that satisfy a predicate leaves the others in
  place; no removal misses.\<close>

lemma remove_each_filter:
  "\<forall>z \<in> set zs. \<not> P z \<Longrightarrow>
   remove_each (filter P ys) (zs @ ys) = Inr (zs @ filter (\<lambda>x. \<not> P x) ys)"
proof (induction ys arbitrary: zs)
  case Nil
  then show ?case by simp
next
  case (Cons y ys)
  show ?case
  proof (cases "P y")
    case True
    then have "y \<notin> set zs" using Cons.prems by auto
    then have "remove1 y (zs @ y # ys) = zs @ ys" by (simp add: remove1_append)
    then show ?thesis using True Cons.IH[OF Cons.prems] by simp
  next
    case False
    then have "\<forall>z \<in> set (zs @ [y]). \<not> P z" using Cons.prems by auto
    from Cons.IH[OF this] show ?thesis using False by simp
  qed
qed

text \<open>Whatever the delivery does, the first loop does not touch the queue file.\<close>

lemma retry_logs_file: "failed_logs_file (snd (retry_logs send ls w)) = failed_logs_file w"
proof (induction ls arbitrary: w)
  case Nil
  then show ?case by simp
next
  case (Cons l ls)
  obtain r es where s: "send w (Attendance (log l)) = (r, es)"
    by (cases "send w (Attendance (log l))")
  let ?w1 = "log_effects es (w\<lparr>sent := sent w @ [Attendance (log l)]\<rparr>)"
  have ih: "failed_logs_file (snd (retry_logs send ls ?w1)) = failed_logs_file ?w1"
    by (rule Cons.IH)
  have f1: "failed_logs_file ?w1 = failed_logs_file w" by (simp add: log_effects_def)
  show ?case
  proof (cases r)
    case (Inl e)
    then show ?thesis using s f1 by simp
  next
    case (Inr ok)
    then show ?thesis using s ih f1
      by (cases "retry_logs send ls ?w1") (auto split: sum.splits)
  qed
qed

text \<open>
  The list logic alone, for a delivery whose answer depends on the record only and that
  returns for every pending record: the sweep writes the original list without the records
  whose delivery succeeded, the others in their order.
\<close>

lemma retry_logs_steady:
  "\<forall>l \<in> set ls. returns f l \<Longrightarrow>
   \<exists>w'. retry_logs (\<lambda>w. f) ls w = (Inr (filter (succeeds f) ls), w') \<and>
        failed_logs_file w' = failed_logs_file w \<and>
        sent w' = sent w @ map (\<lambda>l. Attendance (log l)) ls"
proof (induction ls arbitrary: w)
  case Nil
  then show ?case by simp
next
  case (Cons l ls)
  obtain ok es where s: "f (Attendance (log l)) = (Inr ok, es)"
    using Cons.prems by (cases "f (Attendance (log l))") (auto simp: returns_def)
  let ?w1 = "log_effects es (w\<lparr>sent := sent w @ [Attendance (log l)]\<rparr>)"
  from Cons.IH[of ?w1] Cons.prems obtain w' where
    r: "retry_logs (\<lambda>w. f) ls ?w1 = (Inr (filter (succeeds f) ls), w')"
       "failed_logs_file w' = failed_logs_file ?w1"
       "sent w' = sent ?w1 @ map (\<lambda>l. Attendance (log l)) ls"
    by auto
  have "succeeds f l = ok" using s by (simp add: succeeds_def)
  then show ?case using s r by (auto simp: log_effects_def)
qed

lemma sweep_filters_for_steady_delivery:
  assumes f: "failed_logs_file w = Snapshot failed_logs"
      and p: "map_of failed_logs (ip self) = Some logs"
      and r: "\<forall>l \<in> set logs. returns f l"
  shows "failed_logs_file (snd (process_failed_logs (\<lambda>w. f) self w)) =
           Snapshot (if filter (\<lambda>l. \<not> succeeds f l) logs = []
                     then AList.delete (ip self) failed_logs
                     else AList.update (ip self) (filter (\<lambda>l. \<not> succeeds f l) logs)
                            failed_logs)"
proof -
  from retry_logs_steady[OF r, of w] obtain w' where
    rl: "retry_logs (\<lambda>w. f) logs w = (Inr (filter (succeeds f) logs), w')" by blast
  have re: "remove_each (filter (succeeds f) logs) logs =
              Inr (filter (\<lambda>l. \<not> succeeds f l) logs)"
    using remove_each_filter[of "[]" "succeeds f" logs] by simp
  show ?thesis
    using f p rl re by (auto simp: process_failed_logs_def process_failed_logs_try_def)
qed

text \<open>
  With a delivery whose answer changes between calls, \<open>list.remove\<close> takes the first equal
  copy, not the record that was delivered: of the pending list \<open>[A, B, A]\<close>, when only the
  third call succeeds, \<open>[B, A]\<close> is written.
\<close>

lemma sweep_removes_first_equal_copy:
  "pending_of (failed_logs_file (snd (process_failed_logs accept_from_third_call door
      (world_with (Snapshot [(''10.0.0.5'', [rec_of ''1'', rec_of ''2'', rec_of ''1''])])))))
     ''10.0.0.5'' = [rec_of ''2'', rec_of ''1'']"
  by (simp add: process_failed_logs_def process_failed_logs_try_def accept_from_third_call_def
      world_with_def door_def log_effects_def rec_of_def pending_of_def pending_def)

subsection \<open>The sweep with the method of the class\<close>

text \<open>
  \<open>Attendance(**log["log"])\<close> gives the rebuilt event the timestamp the JSON document
  holds, a \<open>str\<close>; \<open>send_log_to_api\<close> calls \<open>strftime\<close> on it and raises before any
  request. The sweep stops at the first pending record, logs, and writes nothing.
\<close>

lemma own_send_raises_on_reloaded:
  "send_log_to_api post self (Attendance d) = (Inl AttributeError, [])"
  by (simp add: send_log_to_api_def Attendance_def strftime_def)

lemma sweep_with_own_send:
  assumes "failed_logs_file w = Snapshot s" and "map_of s (ip self) = Some (l # ls)"
  shows "process_failed_logs (\<lambda>w. send_log_to_api (net w) self) self w =
           (Inr (), log_effects [LogError ''Failed log processing error'']
                      (w\<lparr>sent := sent w @ [Attendance (log l)]\<rparr>))"
  using assms
  by (simp add: process_failed_logs_def process_failed_logs_try_def own_send_raises_on_reloaded
      log_effects_def)

subsection \<open>Claims about the sweep\<close>

text \<open>
  C3. The program does not do what the specification states. The pending list of the device
  is \<open>[R1, R2, R3]\<close> and the API answers 200 to the request of \<open>R2\<close> and 500 to every
  other: the sweep raises on \<open>R1\<close> before any request, logs the error, and leaves
  \<open>[R1, R2, R3]\<close> in the file, where the specification has \<open>[R1, R3]\<close>.
\<close>

theorem sweep_with_own_send_keeps_all:
  "accepting_user ''2'' \<lparr>data_device_id = 1, data_user_id = ''2'',
      data_timestamp = ''2024-01-01 09:00:00'', data_status = 1\<rparr> = Response 200 [] \<and>
   process_failed_logs (\<lambda>w. send_log_to_api (accepting_user ''2'') door) door
      (world_with (Snapshot [(''10.0.0.5'', [rec_of ''1'', rec_of ''2'', rec_of ''3''])])) =
     (Inr (),
      \<lparr>failed_logs_file = Snapshot [(''10.0.0.5'', [rec_of ''1'', rec_of ''2'', rec_of ''3''])],
       trace = [LogError ''Failed log processing error''],
       sent = [Attendance (log (rec_of ''1''))]\<rparr>) \<and>
   pending_of (failed_logs_file (snd (process_failed_logs
      (\<lambda>w. send_log_to_api (accepting_user ''2'') door) door
      (world_with (Snapshot [(''10.0.0.5'', [rec_of ''1'', rec_of ''2'', rec_of ''3''])])))))
     (ip door) = [rec_of ''1'', rec_of ''2'', rec_of ''3'']"
  by (simp add: process_failed_logs_def process_failed_logs_try_def own_send_raises_on_reloaded
      accepting_user_def world_with_def door_def log_effects_def pending_of_def pending_def)

text \<open>
  C4. When the queue file exists but cannot be opened or does not hold a JSON document,
  the sweep returns normally, leaves the file as it is, hands nothing to the delivery client
  and adds one error line to the log.
\<close>

theorem sweep_skips_bad_snapshot:
  "failed_logs_file w = Malformed \<or> failed_logs_file w = Unreadable \<Longrightarrow>
   fst (process_failed_logs send self w) = Inr () \<and>
   failed_logs_file (snd (process_failed_logs send self w)) = failed_logs_file w \<and>
   sent (snd (process_failed_logs send self w)) = sent w \<and>
   (\<exists>msg. trace (snd (process_failed_logs send self w)) = trace w @ [LogError msg])"
  by (auto simp: process_failed_logs_def process_failed_logs_try_def log_effects_def)

theorem sweep_skips_bad_snapshot_witness:
  "(failed_logs_file (world_with Malformed) = Malformed \<or>
    failed_logs_file (world_with Malformed) = Unreadable) \<and>
   fst (process_failed_logs accept_all door (world_with Malformed)) = Inr () \<and>
   failed_logs_file (snd (process_failed_logs accept_all door (world_with Malformed))) = Malformed \<and>
   sent (snd (process_failed_logs accept_all door (world_with Malformed))) = [] \<and>
   (\<exists>msg. trace (snd (process_failed_logs accept_all door (world_with Malformed))) = [LogError msg])"
  using sweep_skips_bad_snapshot[of "world_with Malformed" accept_all door]
  by (simp add: world_with_def)

subsection \<open>The stores the program writes\<close>

lemma no_empty_list_update:
  "v \<noteq> [] \<Longrightarrow> no_empty_list s \<Longrightarrow> no_empty_list (AList.update k v s)"
  by (induction s) (auto simp: no_empty_list_def)

lemma no_empty_list_delete: "no_empty_list s \<Longrightarrow> no_empty_list (AList.delete k s)"
  by (auto simp: no_empty_list_def AList.delete_eq)

lemma no_empty_list_key:
  assumes "no_empty_list s" and "pending s k = []"
  shows "map_of s k = None"
proof (cases "map_of s k")
  case (Some ls)
  then have "(k, ls) \<in> set s" by (rule map_of_SomeD)
  then have "ls \<in> snd ` set s" by force
  moreover have "[] \<notin> snd ` set s" using assms(1) by (simp add: no_empty_list_def)
  ultimately have "ls \<noteq> []" by metis
  then show ?thesis using assms(2) Some by (simp add: pending_def)
qed simp

text \<open>Neither writer ever leaves a key with an empty list in the file.\<close>

lemma store_failed_log_well_formed:
  "well_formed_file (failed_logs_file w) \<Longrightarrow>
   well_formed_file (failed_logs_file (snd (store_failed_log self lt lg w)))"
  by (cases "failed_logs_file w"; cases "dict_to_json lg")
     (simp_all add: store_failed_log_def store_failed_log_try_def json_load_def log_effects_def
        well_formed_file_def no_empty_list_update, simp add: no_empty_list_def)

lemma process_failed_logs_well_formed:
  assumes "well_formed_file (failed_logs_file w)"
  shows "well_formed_file (failed_logs_file (snd (process_failed_logs send self w)))"
proof (cases "failed_logs_file w")
  case (Snapshot s)
  then have wf: "no_empty_list s" using assms by (simp add: well_formed_file_def)
  show ?thesis
  proof (cases "map_of s (ip self)")
    case None
    then show ?thesis using Snapshot assms
      by (simp add: process_failed_logs_def process_failed_logs_try_def)
  next
    case (Some logs)
    obtain res w1 where rl: "retry_logs send logs w = (res, w1)"
      by (cases "retry_logs send logs w")
    have f1: "failed_logs_file w1 = Snapshot s"
      using retry_logs_file[of send logs w] rl Snapshot by simp
    show ?thesis
    proof (cases res)
      case (Inl e)
      then show ?thesis using Snapshot Some rl f1 wf
        by (simp add: process_failed_logs_def process_failed_logs_try_def log_effects_def
            well_formed_file_def)
    next
      case (Inr success_logs)
      show ?thesis
      proof (cases "remove_each success_logs logs")
        case (Inl e)
        then show ?thesis using Snapshot Some rl f1 wf \<open>res = Inr success_logs\<close>
          by (simp add: process_failed_logs_def process_failed_logs_try_def log_effects_def
              well_formed_file_def)
      next
        case (Inr logs')
        then show ?thesis using Snapshot Some rl wf \<open>res = Inr success_logs\<close>
          by (simp add: process_failed_logs_def process_failed_logs_try_def log_effects_def
              well_formed_file_def no_empty_list_update no_empty_list_delete)
      qed
    qed
  qed
qed (simp_all add: process_failed_logs_def process_failed_logs_try_def log_effects_def
       well_formed_file_def)

text \<open>
  C5. When the device has no pending record, the sweep changes nothing at all: no write, no
  log line, no delivery. This holds when the queue file is absent, when its snapshot has no
  key for the device, and on every snapshot without an empty list, which are the snapshots
  the program writes.
\<close>

theorem sweep_without_pending_is_noop:
  "failed_logs_file w = Missing \<or>
   (\<exists>s. failed_logs_file w = Snapshot s \<and>
        (map_of s (ip self) = None \<or> (no_empty_list s \<and> pending s (ip self) = []))) \<Longrightarrow>
   process_failed_logs send self w = (Inr (), w)"
proof -
  assume h: "failed_logs_file w = Missing \<or>
   (\<exists>s. failed_logs_file w = Snapshot s \<and>
        (map_of s (ip self) = None \<or> (no_empty_list s \<and> pending s (ip self) = [])))"
  then have "failed_logs_file w = Missing \<or>
    (\<exists>s. failed_logs_file w = Snapshot s \<and> map_of s (ip self) = None)"
    using no_empty_list_key by blast
  then show ?thesis
    by (auto simp: process_failed_logs_def process_failed_logs_try_def)
qed

theorem sweep_without_pending_is_noop_witness:
  "no_empty_list [(''10.0.0.6'', [rec_of ''1''])] \<and>
   pending [(''10.0.0.6'', [rec_of ''1''])] (ip door) = [] \<and>
   failed_logs_file (world_with (Snapshot [(''10.0.0.6'', [rec_of ''1''])])) =
     Snapshot [(''10.0.0.6'', [rec_of ''1''])] \<and>
   process_failed_logs accept_all door (world_with (Snapshot [(''10.0.0.6'', [rec_of ''1''])])) =
     (Inr (), world_with (Snapshot [(''10.0.0.6'', [rec_of ''1''])]))"
proof -
  have a: "no_empty_list [(''10.0.0.6'', [rec_of ''1''])]" by (simp add: no_empty_list_def)
  have b: "pending [(''10.0.0.6'', [rec_of ''1''])] (ip door) = []"
    by (simp add: pending_def door_def)
  have c: "failed_logs_file (world_with (Snapshot [(''10.0.0.6'', [rec_of ''1''])])) =
     Snapshot [(''10.0.0.6'', [rec_of ''1''])]" by (simp add: world_with_def)
  have h: "failed_logs_file (world_with (Snapshot [(''10.0.0.6'', [rec_of ''1''])])) = Missing \<or>
    (\<exists>s. failed_logs_file (world_with (Snapshot [(''10.0.0.6'', [rec_of ''1''])])) = Snapshot s \<and>
         (map_of s (ip door) = None \<or> (no_empty_list s \<and> pending s (ip door) = [])))"
    using a b c by blast
  from sweep_without_pending_is_noop[OF h] a b c show ?thesis by blast
qed

subsection \<open>Enqueueing a failed event\<close>

lemma store_failed_log_appends:
  assumes "readable_store (failed_logs_file w) = Some s0" and "dict_to_json lg = Inr d"
  shows "store_failed_log self lt lg w =
           (Inr (), w\<lparr>failed_logs_file := Snapshot
              (AList.update (ip self) (pending s0 (ip self) @ [\<lparr>log_time = lt, log = d\<rparr>]) s0)\<rparr>)"
proof (cases "failed_logs_file w")
  case Missing
  then show ?thesis using assms
    by (simp add: store_failed_log_def store_failed_log_try_def readable_store_def)
next
  case (Snapshot s)
  then show ?thesis using assms
    by (simp add: store_failed_log_def store_failed_log_try_def readable_store_def json_load_def)
qed (use assms in \<open>simp_all add: readable_store_def\<close>)

lemma store_failed_log_skips:
  "readable_store (failed_logs_file w) = None \<Longrightarrow>
   store_failed_log self lt lg w = (Inr (), log_effects [LogError ''Failed to store log''] w)"
  by (cases "failed_logs_file w")
     (simp_all add: store_failed_log_def store_failed_log_try_def readable_store_def json_load_def)

lemma store_failed_log_truncates:
  assumes "readable_store (failed_logs_file w) = Some s0" and "dict_to_json lg = Inl e"
  shows "store_failed_log self lt lg w =
           (Inr (), log_effects [LogError ''Failed to store log''] (w\<lparr>failed_logs_file := Malformed\<rparr>))"
proof (cases "failed_logs_file w")
  case Missing
  then show ?thesis using assms
    by (simp add: store_failed_log_def store_failed_log_try_def readable_store_def)
next
  case (Snapshot s)
  then show ?thesis using assms
    by (simp add: store_failed_log_def store_failed_log_try_def readable_store_def json_load_def)
qed (use assms in \<open>simp_all add: readable_store_def\<close>)

text \<open>
  An event on which \<open>send_log_to_api\<close> returns, true or false, has a \<open>datetime\<close>
  timestamp, and \<open>json.dump\<close> raises on its \<open>__dict__\<close>. So whenever the method of the
  class reports a failed delivery, the enqueue that follows stores nothing: afterwards no key
  of the queue file holds a record.
\<close>

lemma own_send_returns_on_datetime_only:
  "fst (send_log_to_api post self lg) = Inr b \<Longrightarrow> dict_to_json lg = Inl TypeError"
  by (cases "timestamp lg") (simp_all add: send_log_to_api_def strftime_def dict_to_json_def)

lemma enqueue_after_own_send_stores_nothing:
  assumes "fst (send_log_to_api (net w) self lg) = Inr False"
  shows "pending_of (failed_logs_file (snd (snd
           (handle_log (\<lambda>w. send_log_to_api (net w) self) now (AttendanceLog lg) (self', w))))) k
         = []"
proof -
  obtain es where s: "send_log_to_api (net w) self lg = (Inr False, es)"
    using assms by (cases "send_log_to_api (net w) self lg") simp
  have j: "dict_to_json lg = Inl TypeError"
    using own_send_returns_on_datetime_only[OF assms] .
  let ?self1 = "self'\<lparr>device_logs := AList.update now lg (device_logs self')\<rparr>"
  let ?w1 = "log_effects es (w\<lparr>sent := sent w @ [lg]\<rparr>)"
  have h: "handle_log (\<lambda>w. send_log_to_api (net w) self) now (AttendanceLog lg) (self', w) =
             (Inr (), ?self1, snd (store_failed_log ?self1 now lg ?w1))"
    using s by (simp add: handle_log_def Let_def)
  have "pending_of (failed_logs_file (snd (store_failed_log ?self1 now lg ?w1))) k = []"
  proof (cases "readable_store (failed_logs_file ?w1)")
    case None
    then have "failed_logs_file ?w1 = Unreadable \<or> failed_logs_file ?w1 = Malformed"
      by (cases "failed_logs_file ?w1") (simp_all add: readable_store_def)
    then show ?thesis using store_failed_log_skips[OF None, of ?self1 now lg]
      by (auto simp: log_effects_def pending_of_def)
  next
    case (Some s0)
    show ?thesis using store_failed_log_truncates[OF Some j, of ?self1 now]
      by (simp add: log_effects_def pending_of_def)
  qed
  then show ?thesis using h by simp
qed

text \<open>
  C1. The program does not do what the specification states, on its ordinary path. The
  driver yields an event, the API answers 500 and \<open>send_log_to_api\<close> returns false;
  \<open>store_failed_log\<close> opens the queue file for writing, \<open>json.dump\<close> raises on the
  \<open>datetime\<close>, the handler logs it: the event is in no pending list and the file is no
  JSON document. And when a record is pending and the API answers 200, the sweep raises on
  the reloaded timestamp before any request: nothing is delivered and the record stays.
\<close>

theorem failed_event_is_dropped:
  "fst (send_log_to_api (answering 500) door punch) = Inr False \<and>
   handle_log (\<lambda>w. send_log_to_api (answering 500) door) ''2024-01-01 09:00:05''
     (AttendanceLog punch) (door, world_with Missing) =
     (Inr (), door\<lparr>device_logs := [(''2024-01-01 09:00:05'', punch)]\<rparr>,
      \<lparr>failed_logs_file = Malformed,
       trace = [HttpPost \<lparr>data_device_id = 1, data_user_id = ''7'',
                          data_timestamp = ''2024-01-01 09:00:00'', data_status = 1\<rparr>,
                LogError ''Failed to send log to API'', LogError ''Failed to store log''],
       sent = [punch]\<rparr>) \<and>
   pending_of Malformed (ip door) = [] \<and>
   process_failed_logs (\<lambda>w. send_log_to_api (answering 200) door) door
     (world_with (Snapshot [(''10.0.0.5'', [rec_of ''7''])])) =
     (Inr (),
      \<lparr>failed_logs_file = Snapshot [(''10.0.0.5'', [rec_of ''7''])],
       trace = [LogError ''Failed log processing error''], sent = [reloaded_punch]\<rparr>)"
  by (simp add: handle_log_def send_log_to_api_def strftime_def answering_def punch_def
      store_failed_log_def store_failed_log_try_def dict_to_json_def world_with_def
      log_effects_def pending_of_def door_def Let_def
      process_failed_logs_def process_failed_logs_try_def Attendance_def rec_of_def
      reloaded_punch_def)

subsection \<open>Other devices' entries\<close>

text \<open>The sweep of one device leaves the entry of every other key as it was, whatever the
  delivery function does.\<close>

lemma sweep_leaves_other_devices:
  assumes "k \<noteq> ip self"
  shows "entry_of (failed_logs_file (snd (process_failed_logs send self w))) k =
         entry_of (failed_logs_file w) k"
proof (cases "failed_logs_file w")
  case (Snapshot s)
  show ?thesis
  proof (cases "map_of s (ip self)")
    case None
    then show ?thesis using Snapshot
      by (simp add: process_failed_logs_def process_failed_logs_try_def)
  next
    case (Some logs)
    obtain res w1 where rl: "retry_logs send logs w = (res, w1)"
      by (cases "retry_logs send logs w")
    have f1: "failed_logs_file w1 = Snapshot s"
      using retry_logs_file[of send logs w] rl Snapshot by simp
    show ?thesis
    proof (cases res)
      case (Inl e)
      then show ?thesis using Snapshot Some rl f1
        by (simp add: process_failed_logs_def process_failed_logs_try_def log_effects_def)
    next
      case (Inr success_logs)
      then show ?thesis using Snapshot Some rl f1 assms
        by (cases "remove_each success_logs logs")
           (auto simp: process_failed_logs_def process_failed_logs_try_def log_effects_def
              entry_of_def delete_conv' update_conv')
    qed
  qed
qed (simp_all add: process_failed_logs_def process_failed_logs_try_def log_effects_def)

text \<open>So does an enqueue whose event can be written as JSON.\<close>

lemma enqueue_leaves_other_devices:
  assumes "k \<noteq> ip self" and "dict_to_json lg = Inr d"
  shows "entry_of (failed_logs_file (snd (store_failed_log self lt lg w))) k =
         entry_of (failed_logs_file w) k"
  using assms
  by (cases "failed_logs_file w")
     (simp_all add: store_failed_log_def store_failed_log_try_def json_load_def log_effects_def
        entry_of_def update_conv')

text \<open>
  C6. An enqueue whose event carries a \<open>datetime\<close> does not: the file was opened for
  writing before \<open>json.dump\<close> raised, and the entry of the other device is gone. The input
  is the one of the live path: the driver yields the event, the API answers 500.
\<close>

theorem enqueue_truncates_other_devices:
  "entry_of (failed_logs_file (world_with (Snapshot [(''10.0.0.6'', [rec_of ''1''])]))) (ip gate)
     = Some [rec_of ''1''] \<and>
   fst (send_log_to_api (answering 500) door punch) = Inr False \<and>
   failed_logs_file (snd (snd (handle_log (\<lambda>w. send_log_to_api (answering 500) door)
      ''2024-01-01 09:00:05'' (AttendanceLog punch)
      (door, world_with (Snapshot [(''10.0.0.6'', [rec_of ''1''])]))))) = Malformed \<and>
   entry_of (failed_logs_file (snd (snd (handle_log (\<lambda>w. send_log_to_api (answering 500) door)
      ''2024-01-01 09:00:05'' (AttendanceLog punch)
      (door, world_with (Snapshot [(''10.0.0.6'', [rec_of ''1''])])))))) (ip gate) = None"
  by (simp add: handle_log_def send_log_to_api_def strftime_def answering_def punch_def
      store_failed_log_def store_failed_log_try_def json_load_def world_with_def log_effects_def
      entry_of_def dict_to_json_def gate_def Let_def)

section \<open>Properties of the delivery client\<close>

text \<open>
  C8, as the code implements it. For an event whose timestamp is a \<open>datetime\<close>,
  \<open>send_log_to_api\<close> returns true exactly when the response carries status code 200, and
  false for every other status code and for a \<open>RequestException\<close>; it makes one request
  and no second one.
\<close>

theorem send_succeeds_iff_200:
  assumes "timestamp lg = Datetime ts"
  shows "fst (send_log_to_api post self lg) =
           Inr (\<exists>body. post \<lparr>data_device_id = id_dev self, data_user_id = user_id lg,
                               data_timestamp = ts, data_status = punch_status lg\<rparr>
                         = Response 200 body) \<and>
         filter is_post (snd (send_log_to_api post self lg)) =
           [HttpPost \<lparr>data_device_id = id_dev self, data_user_id = user_id lg,
                      data_timestamp = ts, data_status = punch_status lg\<rparr>]"
proof (cases "post \<lparr>data_device_id = id_dev self, data_user_id = user_id lg,
                      data_timestamp = ts, data_status = punch_status lg\<rparr>")
  case (Response code body)
  then show ?thesis using assms
    by (simp add: send_log_to_api_def strftime_def is_post_def Let_def)
next
  case TransportError
  then show ?thesis using assms
    by (simp add: send_log_to_api_def strftime_def is_post_def Let_def)
qed

theorem send_succeeds_iff_200_witness:
  "timestamp punch = Datetime ''2024-01-01 09:00:00'' \<and>
   fst (send_log_to_api (answering 200) door punch) = Inr True \<and>
   fst (send_log_to_api (answering 404) door punch) = Inr False \<and>
   filter is_post (snd (send_log_to_api (answering 200) door punch)) =
     [HttpPost \<lparr>data_device_id = 1, data_user_id = ''7'',
                data_timestamp = ''2024-01-01 09:00:00'', data_status = 1\<rparr>]"
proof -
  have h: "timestamp punch = Datetime ''2024-01-01 09:00:00''" by (simp add: punch_def)
  from send_succeeds_iff_200[OF h, of "answering 200" door]
       send_succeeds_iff_200[OF h, of "answering 404" door] h
  show ?thesis by (simp add: answering_def door_def punch_def)
qed

text \<open>C8, as the specification states it, fails for a 2xx status other than 200: a 201 response makes
  \<open>send_log_to_api\<close> return false.\<close>

theorem send_201_counterexample:
  "fst (send_log_to_api (answering 201) door punch) = Inr False"
  by (simp add: send_log_to_api_def strftime_def answering_def punch_def Let_def)

section \<open>Properties of the device session\<close>

subsection \<open>What the capture loop leaves alone\<close>

lemma store_failed_log_keeps:
  "sent (snd (store_failed_log self lt lg w)) = sent w \<and>
   (\<exists>es. trace (snd (store_failed_log self lt lg w)) = trace w @ es)"
  by (cases "failed_logs_file w"; cases "dict_to_json lg")
     (simp_all add: store_failed_log_def store_failed_log_try_def json_load_def log_effects_def)

lemma store_failed_log_pending:
  "set (pending_of (failed_logs_file (snd (store_failed_log self lt lg w))) k)
     \<subseteq> set (pending_of (failed_logs_file w) k) \<union> records_of [(lt, AttendanceLog lg)]"
proof (cases "dict_to_json lg")
  case (Inl e)
  then show ?thesis
    by (cases "failed_logs_file w")
       (simp_all add: store_failed_log_def store_failed_log_try_def json_load_def log_effects_def
          pending_of_def)
next
  case (Inr d)
  then have "\<lparr>log_time = lt, log = d\<rparr> \<in> records_of [(lt, AttendanceLog lg)]"
    by (simp add: records_of_def)
  then show ?thesis using Inr
    by (cases "failed_logs_file w")
       (auto simp: store_failed_log_def store_failed_log_try_def json_load_def log_effects_def
          pending_of_def pending_def update_conv' split: option.splits if_splits)
qed

lemma records_of_Cons:
  "records_of ((now, lg) # logs) = records_of [(now, lg)] \<union> records_of logs"
  by (auto simp: records_of_def)

lemma handle_log_keeps:
  assumes "handle_log send now lg (self, w) = (res, self', w')"
  shows "conn self' = conn self" and "status self' = status self" and "ip self' = ip self"
    and "\<exists>es. trace w' = trace w @ es"
    and "sent w' = sent w @ attendance_logs [(now, lg)]"
    and "set (pending_of (failed_logs_file w') k)
           \<subseteq> set (pending_of (failed_logs_file w) k) \<union> records_of [(now, lg)]"
proof -
  show "conn self' = conn self" "status self' = status self" "ip self' = ip self"
    using assms
    by (auto simp: handle_log_def Let_def split: raw_log.splits prod.splits sum.splits if_splits)
  show "\<exists>es. trace w' = trace w @ es"
  proof (cases lg)
    case (AttendanceLog a)
    obtain r es where s: "send w a = (r, es)" by (cases "send w a")
    let ?self1 = "self\<lparr>device_logs := AList.update now a (device_logs self)\<rparr>"
    let ?w1 = "log_effects es (w\<lparr>sent := sent w @ [a]\<rparr>)"
    from store_failed_log_keeps[of ?self1 now a ?w1]
    obtain es' where "trace (snd (store_failed_log ?self1 now a ?w1)) = trace ?w1 @ es'"
      by blast
    then show ?thesis using assms AttendanceLog s
      by (cases r) (auto simp: handle_log_def Let_def log_effects_def split: if_splits)
  qed (use assms in \<open>auto simp: handle_log_def log_effects_def\<close>)
  show "sent w' = sent w @ attendance_logs [(now, lg)]"
  proof (cases lg)
    case (AttendanceLog a)
    obtain r es where s: "send w a = (r, es)" by (cases "send w a")
    let ?self1 = "self\<lparr>device_logs := AList.update now a (device_logs self)\<rparr>"
    let ?w1 = "log_effects es (w\<lparr>sent := sent w @ [a]\<rparr>)"
    have "sent (snd (store_failed_log ?self1 now a ?w1)) = sent ?w1"
      using store_failed_log_keeps[of ?self1 now a ?w1] by blast
    then show ?thesis using assms AttendanceLog s
      by (cases r)
         (auto simp: handle_log_def Let_def log_effects_def attendance_logs_def split: if_splits)
  qed (use assms in \<open>auto simp: handle_log_def log_effects_def attendance_logs_def\<close>)
  show "set (pending_of (failed_logs_file w') k)
           \<subseteq> set (pending_of (failed_logs_file w) k) \<union> records_of [(now, lg)]"
  proof (cases lg)
    case (AttendanceLog a)
    obtain r es where s: "send w a = (r, es)" by (cases "send w a")
    let ?self1 = "self\<lparr>device_logs := AList.update now a (device_logs self)\<rparr>"
    let ?w1 = "log_effects es (w\<lparr>sent := sent w @ [a]\<rparr>)"
    have f: "failed_logs_file ?w1 = failed_logs_file w" by (simp add: log_effects_def)
    have "set (pending_of (failed_logs_file (snd (store_failed_log ?self1 now a ?w1))) k)
            \<subseteq> set (pending_of (failed_logs_file w) k) \<union> records_of [(now, AttendanceLog a)]"
      using store_failed_log_pending[of ?self1 now a ?w1 k] unfolding f .
    then show ?thesis using assms AttendanceLog s f
      by (cases r) (auto simp: handle_log_def Let_def log_effects_def split: if_splits)
  qed (use assms in \<open>auto simp: handle_log_def log_effects_def\<close>)
qed

lemma capture_logs_keeps:
  assumes "capture_logs send logs c (self, w) = (res, self', w')"
  shows "conn self' = conn self \<and> status self' = status self \<and> ip self' = ip self \<and>
         (\<exists>es. trace w' = trace w @ es) \<and>
         (\<exists>xs ys. sent w' = sent w @ xs \<and> attendance_logs logs = xs @ ys) \<and>
         (\<forall>k. set (pending_of (failed_logs_file w') k)
                 \<subseteq> set (pending_of (failed_logs_file w) k) \<union> records_of logs)"
  using assms
proof (induction logs arbitrary: c self w)
  case Nil
  then show ?case by (simp add: attendance_logs_def)
next
  case (Cons p logs)
  obtain now lg where p: "p = (now, lg)" by (cases p)
  obtain r self1 w1 where h: "handle_log send now lg (self, w) = (r, self1, w1)"
    by (cases "handle_log send now lg (self, w)")
  note k = handle_log_keeps[OF h]
  have al: "attendance_logs (p # logs) = attendance_logs [(now, lg)] @ attendance_logs logs"
    by (simp add: attendance_logs_def p)
  have rc: "records_of [(now, lg)] \<subseteq> records_of (p # logs)"
    unfolding p records_of_Cons[of now lg logs] by simp
  have rc': "records_of logs \<subseteq> records_of (p # logs)"
    unfolding p records_of_Cons[of now lg logs] by simp
  show ?case
  proof (cases r)
    case (Inl e)
    then have eq: "self' = self1" "w' = w1" using Cons.prems p h by auto
    have a: "conn self' = conn self" "status self' = status self" "ip self' = ip self"
      unfolding eq by (rule k)+
    have b: "\<exists>es. trace w' = trace w @ es" unfolding eq by (rule k(4))
    have c: "\<exists>xs ys. sent w' = sent w @ xs \<and> attendance_logs (p # logs) = xs @ ys"
      unfolding eq using k(5) al by blast
    have d: "\<forall>k. set (pending_of (failed_logs_file w') k)
                 \<subseteq> set (pending_of (failed_logs_file w) k) \<union> records_of (p # logs)"
    proof
      fix k
      have "set (pending_of (failed_logs_file w1) k)
              \<subseteq> set (pending_of (failed_logs_file w) k) \<union> records_of [(now, lg)]"
        by (rule k(6))
      then show "set (pending_of (failed_logs_file w') k)
              \<subseteq> set (pending_of (failed_logs_file w) k) \<union> records_of (p # logs)"
        unfolding eq using rc by blast
    qed
    from a b c d show ?thesis by simp
  next
    case (Inr u)
    then have rest: "capture_logs send logs (c \<or> lg \<noteq> NoneLog) (self1, w1) = (res, self', w')"
      using Cons.prems p h by simp
    note ih = Cons.IH[OF rest]
    have a: "conn self' = conn self" "status self' = status self" "ip self' = ip self"
      using ih k(1-3) by simp_all
    from ih obtain es2 where t2: "trace w' = trace w1 @ es2" by blast
    from k(4) obtain es1 where t1: "trace w1 = trace w @ es1" by blast
    have b: "\<exists>es. trace w' = trace w @ es" using t1 t2 by simp
    from ih obtain xs ys where x: "sent w' = sent w1 @ xs" "attendance_logs logs = xs @ ys"
      by blast
    have s: "sent w' = sent w @ (attendance_logs [(now, lg)] @ xs)"
      using x(1) k(5) by simp
    have a2: "attendance_logs (p # logs) = (attendance_logs [(now, lg)] @ xs) @ ys"
      using al x(2) by simp
    have c: "\<exists>xs ys. sent w' = sent w @ xs \<and> attendance_logs (p # logs) = xs @ ys"
      using s a2 by blast
    have d: "\<forall>k. set (pending_of (failed_logs_file w') k)
                 \<subseteq> set (pending_of (failed_logs_file w) k) \<union> records_of (p # logs)"
    proof
      fix k
      have "set (pending_of (failed_logs_file w') k)
              \<subseteq> set (pending_of (failed_logs_file w1) k) \<union> records_of logs"
        using ih by blast
      moreover have "set (pending_of (failed_logs_file w1) k)
              \<subseteq> set (pending_of (failed_logs_file w) k) \<union> records_of [(now, lg)]"
        by (rule k(6))
      ultimately show "set (pending_of (failed_logs_file w') k)
              \<subseteq> set (pending_of (failed_logs_file w) k) \<union> records_of (p # logs)"
        using rc rc' by blast
    qed
    from a b c d show ?thesis by simp
  qed
qed

lemma capture_cycle_keeps:
  assumes "capture_cycle r (self, w) = (res, self', w')"
  shows "conn self' = conn self" and "status self' = status self" and "ip self' = ip self"
    and "\<exists>es. trace w' = trace w @ es"
    and "conn self \<noteq> None \<Longrightarrow> \<exists>es. trace w' = trace w @ LiveCapture # es"
    and "\<exists>xs ys. sent w' = sent w @ xs \<and> attendance_logs (batch_of r) = xs @ ys"
    and "\<forall>k. set (pending_of (failed_logs_file w') k)
               \<subseteq> set (pending_of (failed_logs_file w) k) \<union> records_of (batch_of r)"
proof -
  have all: "conn self' = conn self \<and> status self' = status self \<and> ip self' = ip self \<and>
    (\<exists>es. trace w' = trace w @ es) \<and>
    (conn self \<noteq> None \<longrightarrow> (\<exists>es. trace w' = trace w @ LiveCapture # es)) \<and>
    (\<exists>xs ys. sent w' = sent w @ xs \<and> attendance_logs (batch_of r) = xs @ ys) \<and>
    (\<forall>k. set (pending_of (failed_logs_file w') k)
            \<subseteq> set (pending_of (failed_logs_file w) k) \<union> records_of (batch_of r))"
  proof (cases "conn self")
    case None
    then have "res = Inl AttributeError" "self' = self" "w' = w"
      using assms by (simp_all add: capture_cycle_def)
    then show ?thesis using None by (simp add: attendance_logs_def)
  next
    case (Some h)
    let ?w2 = "log_effects [LiveCapture] w"
    have t2: "trace ?w2 = trace w @ [LiveCapture]" "sent ?w2 = sent w"
      "failed_logs_file ?w2 = failed_logs_file w"
      by (simp_all add: log_effects_def)
    show ?thesis
    proof (cases "capture_outcome r")
      case (CaptureRaises e)
      then have "self' = self" "w' = ?w2"
        using assms Some by (simp_all add: capture_cycle_def)
      then show ?thesis using Some t2 CaptureRaises
        by (simp add: batch_of_def attendance_logs_def)
    next
      case CaptureNone
      then have "self' = self" "w' = log_effects [Sleep 1] ?w2"
        using assms Some by (simp_all add: capture_cycle_def)
      then show ?thesis using Some CaptureNone
        by (simp add: batch_of_def attendance_logs_def log_effects_def)
    next
      case (Yields logs ending)
      obtain r3 self3 w3 where
        cl: "capture_logs (send_outcome r) logs False (self, ?w2) = (r3, self3, w3)"
        by (cases "capture_logs (send_outcome r) logs False (self, ?w2)")
      note k = capture_logs_keeps[OF cl]
      from k obtain es where es: "trace w3 = trace ?w2 @ es" by blast
      have tr3: "trace w3 = trace w @ LiveCapture # es" using es t2 by simp
      have b: "batch_of r = logs" using Yields by (simp add: batch_of_def)
      have se3: "\<exists>xs ys. sent w3 = sent w @ xs \<and> attendance_logs (batch_of r) = xs @ ys"
        using k t2 b by simp
      have pe3: "\<forall>k. set (pending_of (failed_logs_file w3) k)
            \<subseteq> set (pending_of (failed_logs_file w) k) \<union> records_of (batch_of r)"
        using k t2 b by simp
      have dv3: "conn self3 = conn self" "status self3 = status self" "ip self3 = ip self"
        using k by simp_all
      have "self' = self3 \<and> (\<exists>es'. w' = log_effects es' w3)"
      proof (cases r3)
        case (Inl e)
        then have "self' = self3" "w' = log_effects [] w3"
          using assms Some Yields cl by (simp_all add: capture_cycle_def log_effects_def)
        then show ?thesis by blast
      next
        case (Inr logs_captured)
        show ?thesis
        proof (cases ending)
          case None
          then have "self' = self3"
            "w' = log_effects ((if \<not> logs_captured then [Sleep 1] else []) @ [Sleep 1]) w3"
            using assms Some Yields cl Inr by (simp_all add: capture_cycle_def)
          then show ?thesis by blast
        next
          case (Some e)
          then have "self' = self3" "w' = log_effects [] w3"
            using assms \<open>conn self = Some h\<close> Yields cl Inr
            by (simp_all add: capture_cycle_def log_effects_def)
          then show ?thesis by blast
        qed
      qed
      then obtain es' where w': "self' = self3" "w' = log_effects es' w3" by blast
      have "trace w' = trace w @ LiveCapture # (es @ es')" "sent w' = sent w3"
        "failed_logs_file w' = failed_logs_file w3"
        using w' tr3 by (simp_all add: log_effects_def)
      then show ?thesis using w' dv3 se3 pe3 Some by simp
    qed
  qed
  from all show "conn self' = conn self" "status self' = status self" "ip self' = ip self"
    "\<exists>es. trace w' = trace w @ es"
    "\<exists>xs ys. sent w' = sent w @ xs \<and> attendance_logs (batch_of r) = xs @ ys"
    "\<forall>k. set (pending_of (failed_logs_file w') k)
               \<subseteq> set (pending_of (failed_logs_file w) k) \<union> records_of (batch_of r)"
    by blast+
  from all show "conn self \<noteq> None \<Longrightarrow> \<exists>es. trace w' = trace w @ LiveCapture # es" by blast
qed

text \<open>The three ways a pass can go, by the guard of line 71.\<close>

lemma get_live_logs_try_held:
  "conn self \<noteq> None \<Longrightarrow> get_live_logs_try r (self, w) = capture_cycle r (self, w)"
  by (auto simp: get_live_logs_try_def)

lemma get_live_logs_try_refused:
  "conn self = None \<Longrightarrow> connect_outcome r = Inl e \<Longrightarrow>
   get_live_logs_try r (self, w) =
     (Inr (), self\<lparr>status := ''Connection Failed''\<rparr>,
      log_effects [Sleep 10]
        (log_effects [DriverConnect (ip self), LogError ''Connection error''] w))"
  by (simp add: get_live_logs_try_def connect_def)

lemma get_live_logs_try_opened:
  "conn self = None \<Longrightarrow> connect_outcome r = Inr h \<Longrightarrow>
   get_live_logs_try r (self, w) =
     capture_cycle r (self\<lparr>conn := Some h, status := ''Connected''\<rparr>,
       log_effects [DriverConnect (ip self), LogInfo ''Connected to''] w)"
  by (simp add: get_live_logs_try_def connect_def)

lemma get_live_logs_try_keeps:
  assumes "get_live_logs_try r (self, w) = (res, self', w')"
  shows "\<exists>es. trace w' = trace w @ es"
    and "\<exists>xs ys. sent w' = sent w @ xs \<and> attendance_logs (batch_of r) = xs @ ys"
    and "\<forall>k. set (pending_of (failed_logs_file w') k)
               \<subseteq> set (pending_of (failed_logs_file w) k) \<union> records_of (batch_of r)"
    and "res \<noteq> Inr () \<Longrightarrow> conn self' \<noteq> None"
    and "status self' =
           (if conn self = None
            then (case connect_outcome r of Inr h \<Rightarrow> ''Connected'' | Inl e \<Rightarrow> ''Connection Failed'')
            else status self)"
proof -
  have all: "(\<exists>es. trace w' = trace w @ es) \<and>
    (\<exists>xs ys. sent w' = sent w @ xs \<and> attendance_logs (batch_of r) = xs @ ys) \<and>
    (\<forall>k. set (pending_of (failed_logs_file w') k)
            \<subseteq> set (pending_of (failed_logs_file w) k) \<union> records_of (batch_of r)) \<and>
    (res \<noteq> Inr () \<longrightarrow> conn self' \<noteq> None) \<and>
    status self' =
      (if conn self = None
       then (case connect_outcome r of Inr h \<Rightarrow> ''Connected'' | Inl e \<Rightarrow> ''Connection Failed'')
       else status self)"
  proof (cases "conn self")
    case (Some h)
    then have c: "capture_cycle r (self, w) = (res, self', w')"
      using assms get_live_logs_try_held[of self r w] by simp
    note k = capture_cycle_keeps[OF c]
    show ?thesis using k(1,2,4,6,7) Some by simp
  next
    case None
    show ?thesis
    proof (cases "connect_outcome r")
      case (Inl e)
      then have "res = Inr ()" "self' = self\<lparr>status := ''Connection Failed''\<rparr>"
        "w' = log_effects [Sleep 10]
                (log_effects [DriverConnect (ip self), LogError ''Connection error''] w)"
        using assms get_live_logs_try_refused[OF None Inl, of w] by simp_all
      then show ?thesis using None Inl by (simp add: log_effects_def)
    next
      case (Inr h)
      let ?self1 = "self\<lparr>conn := Some h, status := ''Connected''\<rparr>"
      let ?w1 = "log_effects [DriverConnect (ip self), LogInfo ''Connected to''] w"
      have c: "capture_cycle r (?self1, ?w1) = (res, self', w')"
        using assms get_live_logs_try_opened[OF None Inr, of w] by simp
      note k = capture_cycle_keeps[OF c]
      from k(4) obtain es where "trace w' = trace ?w1 @ es" by blast
      then have t: "\<exists>es. trace w' = trace w @ es" by (simp add: log_effects_def)
      have s: "\<exists>xs ys. sent w' = sent w @ xs \<and> attendance_logs (batch_of r) = xs @ ys"
        using k(6) by (simp add: log_effects_def)
      have p: "\<forall>k. set (pending_of (failed_logs_file w') k)
            \<subseteq> set (pending_of (failed_logs_file w) k) \<union> records_of (batch_of r)"
        using k(7) by (simp add: log_effects_def)
      have n: "conn self' \<noteq> None" using k(1) by simp
      have st: "status self' = ''Connected''" using k(2) by simp
      show ?thesis using t s p n st None Inr by simp
    qed
  qed
  from all show "\<exists>es. trace w' = trace w @ es"
    "\<exists>xs ys. sent w' = sent w @ xs \<and> attendance_logs (batch_of r) = xs @ ys"
    "\<forall>k. set (pending_of (failed_logs_file w') k)
               \<subseteq> set (pending_of (failed_logs_file w) k) \<union> records_of (batch_of r)"
    "status self' =
           (if conn self = None
            then (case connect_outcome r of Inr h \<Rightarrow> ''Connected'' | Inl e \<Rightarrow> ''Connection Failed'')
            else status self)"
    by blast+
  from all show "res \<noteq> Inr () \<Longrightarrow> conn self' \<noteq> None" by blast
qed

lemma get_live_logs_pass_split:
  obtains (quiet) self' w' where
      "get_live_logs_try r (self, w) = (Inr (), self', w')"
      "get_live_logs_pass r (self, w) = (None, self', w')"
    | (fault) e self' w0 where
      "get_live_logs_try r (self, w) = (Inl e, self', w0)"
      "get_live_logs_pass r (self, w) =
         (Some e, self', log_effects [LogError ''Live log error'', Sleep 10] w0)"
proof (cases "get_live_logs_try r (self, w)")
  case (fields res self' w0)
  show ?thesis
  proof (cases res)
    case (Inl e)
    then show ?thesis using fields fault by (simp add: get_live_logs_pass_def)
  next
    case (Inr u)
    then show ?thesis using fields quiet by (simp add: get_live_logs_pass_def)
  qed
qed

lemma attendance_logs_set:
  "set (attendance_logs logs) = {a. \<exists>now. (now, AttendanceLog a) \<in> set logs}"
proof (induction logs)
  case Nil
  then show ?case by (simp add: attendance_logs_def)
next
  case (Cons p logs)
  obtain now lg where p: "p = (now, lg)" by (cases p)
  have "attendance_logs (p # logs) =
          (case lg of AttendanceLog a \<Rightarrow> [a] | _ \<Rightarrow> []) @ attendance_logs logs"
    by (simp add: attendance_logs_def p)
  then show ?case using Cons.IH p by (cases lg) auto
qed

subsection \<open>Claims about the capture loop\<close>

text \<open>
  C9. In one pass of the capture loop, every event handed to \<open>send_log_to_api\<close> is an
  \<open>Attendance\<close> item of the batch the driver yielded, in the order of the batch; every
  record the pass leaves in the queue file was there before or was built from an
  \<open>Attendance\<close> item of the batch; and an item of another type only adds the warning
  line to the log.
\<close>

theorem capture_reaches_attendance_only:
  "(\<forall>a \<in> set (drop (length (sent w)) (sent (snd (snd (get_live_logs_pass r (self, w)))))).
      \<exists>now. (now, AttendanceLog a) \<in> set (batch_of r)) \<and>
   (\<exists>xs ys. sent (snd (snd (get_live_logs_pass r (self, w)))) = sent w @ xs \<and>
            attendance_logs (batch_of r) = xs @ ys) \<and>
   (\<forall>k. set (pending_of (failed_logs_file (snd (snd (get_live_logs_pass r (self, w))))) k)
           \<subseteq> set (pending_of (failed_logs_file w) k) \<union> records_of (batch_of r)) \<and>
   (\<forall>now x d v. handle_log send now (UnknownLog x) (d, v) =
                  (Inr (), d, log_effects [LogWarning ''Unknown log type''] v))"
proof -
  obtain res self0 w0 where t: "get_live_logs_try r (self, w) = (res, self0, w0)"
    by (cases "get_live_logs_try r (self, w)")
  note k = get_live_logs_try_keeps[OF t]
  have "\<exists>es. snd (snd (get_live_logs_pass r (self, w))) = log_effects es w0"
  proof (cases res)
    case (Inl e)
    then have "snd (snd (get_live_logs_pass r (self, w))) =
                 log_effects [LogError ''Live log error'', Sleep 10] w0"
      using t by (simp add: get_live_logs_pass_def)
    then show ?thesis by blast
  next
    case (Inr u)
    then have "snd (snd (get_live_logs_pass r (self, w))) = log_effects [] w0"
      using t by (simp add: get_live_logs_pass_def log_effects_def)
    then show ?thesis by blast
  qed
  then obtain es where "snd (snd (get_live_logs_pass r (self, w))) = log_effects es w0" by blast
  then have same: "sent (snd (snd (get_live_logs_pass r (self, w)))) = sent w0"
    "failed_logs_file (snd (snd (get_live_logs_pass r (self, w)))) = failed_logs_file w0"
    by (simp_all add: log_effects_def)
  from k(2) obtain xs ys where x: "sent w0 = sent w @ xs" "attendance_logs (batch_of r) = xs @ ys"
    by blast
  have "set xs \<subseteq> set (attendance_logs (batch_of r))" using x(2) by simp
  then have c1: "\<forall>a \<in> set (drop (length (sent w))
                   (sent (snd (snd (get_live_logs_pass r (self, w)))))).
                 \<exists>now. (now, AttendanceLog a) \<in> set (batch_of r)"
    unfolding same x(1) attendance_logs_set by auto
  have c2: "\<exists>xs ys. sent (snd (snd (get_live_logs_pass r (self, w)))) = sent w @ xs \<and>
            attendance_logs (batch_of r) = xs @ ys"
    unfolding same using x by blast
  have c3: "\<forall>k. set (pending_of (failed_logs_file (snd (snd (get_live_logs_pass r (self, w))))) k)
           \<subseteq> set (pending_of (failed_logs_file w) k) \<union> records_of (batch_of r)"
    unfolding same by (rule k(3))
  have c4: "\<forall>now x d v. handle_log send now (UnknownLog x) (d, v) =
                  (Inr (), d, log_effects [LogWarning ''Unknown log type''] v)"
    by (simp add: handle_log_def)
  from c1 c2 c3 c4 show ?thesis by blast
qed

theorem capture_reaches_attendance_only_witness:
  "batch_of (round_with (Yields [(''2024-01-01 09:00:05'', UnknownLog ''junk''),
       (''2024-01-01 09:00:05'', NoneLog),
       (''2024-01-01 09:00:05'', AttendanceLog reloaded_punch)] None)) =
     [(''2024-01-01 09:00:05'', UnknownLog ''junk''), (''2024-01-01 09:00:05'', NoneLog),
      (''2024-01-01 09:00:05'', AttendanceLog reloaded_punch)] \<and>
   sent (snd (snd (get_live_logs_pass
     (round_with (Yields [(''2024-01-01 09:00:05'', UnknownLog ''junk''),
       (''2024-01-01 09:00:05'', NoneLog),
       (''2024-01-01 09:00:05'', AttendanceLog reloaded_punch)] None))
     (connected_door, world_with Missing)))) = [reloaded_punch] \<and>
   trace (snd (snd (get_live_logs_pass
     (round_with (Yields [(''2024-01-01 09:00:05'', UnknownLog ''junk''),
       (''2024-01-01 09:00:05'', NoneLog),
       (''2024-01-01 09:00:05'', AttendanceLog reloaded_punch)] None))
     (connected_door, world_with Missing)))) =
     [LiveCapture, LogWarning ''Unknown log type'', Sleep 1] \<and>
   failed_logs_file (snd (snd (get_live_logs_pass
     (round_with (Yields [(''2024-01-01 09:00:05'', UnknownLog ''junk''),
       (''2024-01-01 09:00:05'', NoneLog),
       (''2024-01-01 09:00:05'', AttendanceLog reloaded_punch)] None))
     (connected_door, world_with Missing)))) = Snapshot [(''10.0.0.5'', [rec_of ''7''])]"
  using capture_reaches_attendance_only[of "world_with Missing"
      "round_with (Yields [(''2024-01-01 09:00:05'', UnknownLog ''junk''),
       (''2024-01-01 09:00:05'', NoneLog),
       (''2024-01-01 09:00:05'', AttendanceLog reloaded_punch)] None)" connected_door refuse_all]
  by (simp add: get_live_logs_pass_def get_live_logs_try_def capture_cycle_def handle_log_def
      round_with_def connected_door_def door_def world_with_def log_effects_def refuse_all_def
      store_failed_log_def store_failed_log_try_def dict_to_json_def reloaded_punch_def
      rec_of_def pending_def batch_of_def)

text \<open>
  C2, as the code implements it. When a pass of the loop ends in the handler, the handler adds the
  error line and the 10 second sleep and nothing else; the device still holds the connection
  handle it had when the fault was raised, so the next pass does not call \<open>connect\<close>: it
  starts with \<open>live_capture\<close> on the same handle.
\<close>

theorem fault_keeps_handle:
  assumes "get_live_logs_pass r (self, w) = (Some e, self', w')"
  shows "(\<exists>es. trace w' = trace w @ es @ [LogError ''Live log error'', Sleep 10]) \<and>
         conn self' \<noteq> None \<and>
         (\<forall>r'. \<exists>es'. trace (snd (snd (get_live_logs_pass r' (self', w')))) =
                         trace w' @ LiveCapture # es')"
proof -
  obtain w0 where t: "get_live_logs_try r (self, w) = (Inl e, self', w0)"
    and w': "w' = log_effects [LogError ''Live log error'', Sleep 10] w0"
    using assms by (cases rule: get_live_logs_pass_split[of r self w]) auto
  note k = get_live_logs_try_keeps[OF t]
  from k(1) obtain es where "trace w0 = trace w @ es" by blast
  then have c1: "\<exists>es. trace w' = trace w @ es @ [LogError ''Live log error'', Sleep 10]"
    using w' by (simp add: log_effects_def)
  have c2: "conn self' \<noteq> None" using k(4) by simp
  have c3: "\<forall>r'. \<exists>es'. trace (snd (snd (get_live_logs_pass r' (self', w')))) =
                         trace w' @ LiveCapture # es'"
  proof
    fix r'
    obtain res2 self2 w2 where c: "capture_cycle r' (self', w') = (res2, self2, w2)"
      by (cases "capture_cycle r' (self', w')")
    then have t2: "get_live_logs_try r' (self', w') = (res2, self2, w2)"
      using get_live_logs_try_held[OF c2, of r' w'] by simp
    from capture_cycle_keeps(5)[OF c c2] obtain es2 where
      e2: "trace w2 = trace w' @ LiveCapture # es2" by blast
    show "\<exists>es'. trace (snd (snd (get_live_logs_pass r' (self', w')))) =
                 trace w' @ LiveCapture # es'"
    proof (cases res2)
      case (Inl e2)
      then have "trace (snd (snd (get_live_logs_pass r' (self', w')))) =
                   trace w' @ LiveCapture # (es2 @ [LogError ''Live log error'', Sleep 10])"
        using t2 e2 by (simp add: get_live_logs_pass_def log_effects_def)
      then show ?thesis by blast
    next
      case (Inr u)
      then have "trace (snd (snd (get_live_logs_pass r' (self', w')))) =
                   trace w' @ LiveCapture # es2"
        using t2 e2 by (simp add: get_live_logs_pass_def)
      then show ?thesis by blast
    qed
  qed
  from c1 c2 c3 show ?thesis by blast
qed

theorem fault_keeps_handle_witness:
  "get_live_logs_pass (round_with (CaptureRaises DriverError)) (connected_door, world_with Missing) =
     (Some DriverError, connected_door,
      \<lparr>failed_logs_file = Missing,
       trace = [LiveCapture, LogError ''Live log error'', Sleep 10], sent = []\<rparr>) \<and>
   conn connected_door = Some (Handle 0) \<and>
   trace (snd (snd (get_live_logs_pass (round_with CaptureNone)
      (connected_door,
       \<lparr>failed_logs_file = Missing,
        trace = [LiveCapture, LogError ''Live log error'', Sleep 10], sent = []\<rparr>)))) =
     [LiveCapture, LogError ''Live log error'', Sleep 10, LiveCapture, Sleep 1]"
proof -
  have h: "get_live_logs_pass (round_with (CaptureRaises DriverError))
             (connected_door, world_with Missing) =
           (Some DriverError, connected_door,
            \<lparr>failed_logs_file = Missing,
             trace = [LiveCapture, LogError ''Live log error'', Sleep 10], sent = []\<rparr>)"
    by (simp add: get_live_logs_pass_def get_live_logs_try_def capture_cycle_def round_with_def
        connected_door_def door_def world_with_def log_effects_def)
  from fault_keeps_handle[OF h] h show ?thesis
    by (simp add: get_live_logs_pass_def get_live_logs_try_def capture_cycle_def round_with_def
        connected_door_def door_def log_effects_def)
qed

text \<open>
  C2, as the specification states it, fails: the driver raises during a capture, the handler runs, and
  in the next pass the driver would accept a connect, yet none is attempted.
\<close>

theorem fault_no_reconnect_counterexample:
  "fst (get_live_logs_pass (round_with (CaptureRaises DriverError))
          (connected_door, world_with Missing)) = Some DriverError \<and>
   connect_outcome (round_with CaptureNone) = Inr (Handle 1) \<and>
   trace (snd (get_live_logs [round_with (CaptureRaises DriverError), round_with CaptureNone]
                 (connected_door, world_with Missing))) =
     [LiveCapture, LogError ''Live log error'', Sleep 10, LiveCapture, Sleep 1] \<and>
   DriverConnect ''10.0.0.5'' \<notin> set (trace (snd (get_live_logs
       [round_with (CaptureRaises DriverError), round_with CaptureNone]
       (connected_door, world_with Missing))))"
  by (simp add: get_live_logs_pass_def get_live_logs_try_def capture_cycle_def round_with_def
      connected_door_def door_def world_with_def log_effects_def)

subsection \<open>Claims about the status field\<close>

text \<open>
  C7, as the code implements it. The status starts at the value the configuration record carries.
  \<open>connect\<close> sets it to \<open>Connected\<close> on success and to \<open>Connection Failed\<close> on failure,
  whatever it was; \<open>disconnect\<close> sets it to \<open>Disconnected\<close> when a handle is held and the
  driver's call returns, and leaves it otherwise; a pass of the capture loop changes it only
  through the \<open>connect\<close> it makes when no handle is held. No operation assigns
  \<open>Connecting\<close>.
\<close>

theorem status_assignments:
  "status (init_device dd) = data_status_field dd \<and>
   status (fst (snd (connect outcome self w))) =
     (case outcome of Inr h \<Rightarrow> ''Connected'' | Inl e \<Rightarrow> ''Connection Failed'') \<and>
   status (fst (snd (disconnect close self w))) =
     (case conn self of
        None \<Rightarrow> status self
      | Some h \<Rightarrow> (case close h of None \<Rightarrow> ''Disconnected'' | Some e \<Rightarrow> status self)) \<and>
   status (fst (snd (get_live_logs_pass r (self, w)))) =
     (if conn self = None
      then (case connect_outcome r of Inr h \<Rightarrow> ''Connected'' | Inl e \<Rightarrow> ''Connection Failed'')
      else status self)"
proof -
  have c1: "status (init_device dd) = data_status_field dd" by (simp add: init_device_def)
  have c2: "status (fst (snd (connect outcome self w))) =
     (case outcome of Inr h \<Rightarrow> ''Connected'' | Inl e \<Rightarrow> ''Connection Failed'')"
    by (cases outcome) (simp_all add: connect_def)
  have c3: "status (fst (snd (disconnect close self w))) =
     (case conn self of
        None \<Rightarrow> status self
      | Some h \<Rightarrow> (case close h of None \<Rightarrow> ''Disconnected'' | Some e \<Rightarrow> status self))"
    by (simp add: disconnect_def split: option.splits)
  obtain res self0 w0 where t: "get_live_logs_try r (self, w) = (res, self0, w0)"
    by (cases "get_live_logs_try r (self, w)")
  have "fst (snd (get_live_logs_pass r (self, w))) = self0"
    using t by (cases res) (simp_all add: get_live_logs_pass_def)
  then have c4: "status (fst (snd (get_live_logs_pass r (self, w)))) =
     (if conn self = None
      then (case connect_outcome r of Inr h \<Rightarrow> ''Connected'' | Inl e \<Rightarrow> ''Connection Failed'')
      else status self)"
    using get_live_logs_try_keeps(5)[OF t] by simp
  from c1 c2 c3 c4 show ?thesis by blast
qed

text \<open>
  C7, as the specification states it, fails: a successful \<open>connect\<close> moves the status from
  \<open>Disconnected\<close> to \<open>Connected\<close> in one assignment, and a device whose configuration
  record says \<open>Connected\<close> starts there.
\<close>

theorem connect_skips_connecting_counterexample:
  "status door = ''Disconnected'' \<and>
   status (fst (snd (connect (Inr (Handle 1)) door (world_with Missing)))) = ''Connected'' \<and>
   status (init_device \<lparr>data_id = 1, data_ip = ''10.0.0.5'', data_name = ''door'',
                         data_status_field = ''Connected'', data_password = ''0''\<rparr>) = ''Connected''"
  by (simp add: door_def connect_def init_device_def)

subsection \<open>Claims about \<open>disconnect\<close>\<close>

text \<open>
  C10, as the code implements it. Without a handle \<open>disconnect\<close> does nothing. With a handle, a
  call on which the driver's \<open>disconnect()\<close> returns invokes it once and sets the status to
  \<open>Disconnected\<close>; the handle stays, so a second call invokes the driver again and, when
  that returns too, leaves the device as the first call left it. An exception of the driver
  leaves the method.
\<close>

theorem disconnect_effects:
  "(conn self = None \<longrightarrow> disconnect close self w = (Inr (), self, w)) \<and>
   (\<forall>h. conn self = Some h \<and> close h = None \<longrightarrow>
      disconnect close self w =
        (Inr (), self\<lparr>status := ''Disconnected''\<rparr>,
         log_effects [DriverDisconnect, LogInfo ''Disconnected from''] w) \<and>
      disconnect close (fst (snd (disconnect close self w))) (snd (snd (disconnect close self w))) =
        (Inr (), self\<lparr>status := ''Disconnected''\<rparr>,
         log_effects [DriverDisconnect, LogInfo ''Disconnected from'', DriverDisconnect,
                      LogInfo ''Disconnected from''] w)) \<and>
   (\<forall>h e. conn self = Some h \<and> close h = Some e \<longrightarrow>
      disconnect close self w = (Inl e, self, log_effects [DriverDisconnect] w))"
  by (simp add: disconnect_def log_effects_def)

theorem disconnect_effects_witness:
  "conn connected_door = Some (Handle 0) \<and> closes (Handle 0) = None \<and> conn door = None \<and>
   disconnect closes door (world_with Missing) = (Inr (), door, world_with Missing) \<and>
   disconnect closes connected_door (world_with Missing) =
     (Inr (), connected_door\<lparr>status := ''Disconnected''\<rparr>,
      log_effects [DriverDisconnect, LogInfo ''Disconnected from''] (world_with Missing)) \<and>
   fst (snd (disconnect closes (fst (snd (disconnect closes connected_door (world_with Missing))))
               (snd (snd (disconnect closes connected_door (world_with Missing)))))) =
     fst (snd (disconnect closes connected_door (world_with Missing)))"
proof -
  have h: "conn connected_door = Some (Handle 0)" "closes (Handle 0) = None" "conn door = None"
    by (simp_all add: connected_door_def closes_def door_def)
  from disconnect_effects[of door closes "world_with Missing"]
       disconnect_effects[of connected_door closes "world_with Missing"] h
  show ?thesis
    by (simp add: disconnect_def connected_door_def door_def closes_def log_effects_def)
qed

text \<open>
  C10, as the specification states it, fails: on a session that \<open>disconnect\<close> has already closed, a
  second call closes the driver session a second time.
\<close>

theorem disconnect_twice_counterexample:
  "status (fst (snd (disconnect closes connected_door (world_with Missing)))) = ''Disconnected'' \<and>
   trace (snd (snd (disconnect closes connected_door (world_with Missing)))) =
     [DriverDisconnect, LogInfo ''Disconnected from''] \<and>
   trace (snd (snd (disconnect closes
       (fst (snd (disconnect closes connected_door (world_with Missing))))
       (snd (snd (disconnect closes connected_door (world_with Missing))))))) =
     [DriverDisconnect, LogInfo ''Disconnected from'', DriverDisconnect,
      LogInfo ''Disconnected from'']"
  by (simp add: disconnect_def connected_door_def door_def closes_def world_with_def
      log_effects_def)

end
